theory Spec2Isabelle
  imports Main
begin

section \<open>Text primitives of the Python runtime\<close>

text \<open>
  The indexer of \<^verbatim>\<open>src/block_processor.py\<close> keeps two text files under its storage
  directory: \<^verbatim>\<open>processor.state\<close> (the lock marker) and \<^verbatim>\<open>blocks.csv\<close> (the ledger).
  A file is modelled by its content, a \<^typ>\<open>string\<close>; a \<^typ>\<open>char\<close> stands for a code
  point below 256, and files are read and written on a POSIX system (a written
  line feed stays a line feed).  The functions of this section are the ones the
  source calls on \<^verbatim>\<open>str\<close> values: \<^verbatim>\<open>readlines\<close>, \<^verbatim>\<open>strip\<close>, \<^verbatim>\<open>split(',')[0]\<close>,
  \<^verbatim>\<open>int\<close> and the decimal formatting of an f-string.  The limit that recent
  versions of Python put on the number of digits of an integer conversion (4300
  by default) is not modelled: where it is in force no height beyond it comes out
  of \<^verbatim>\<open>get_block\<close> or out of the ledger, both going through \<^verbatim>\<open>int\<close>.
\<close>

abbreviation LF :: char where
  "LF \<equiv> CHR 0x0A"

abbreviation CR :: char where
  "CR \<equiv> CHR 0x0D"

abbreviation comma :: char where
  "comma \<equiv> CHR '',''"

definition isspace :: "char \<Rightarrow> bool" where
  \<comment> \<open>\<^verbatim>\<open>str.isspace\<close> on code points below 256: TAB..CR, FS..US, space, NEL, NBSP.\<close>
  "isspace c =
     (let n = (of_char c :: nat)
      in (9 \<le> n \<and> n \<le> 13) \<or> (28 \<le> n \<and> n \<le> 32) \<or> n = 133 \<or> n = 160)"

definition strip :: "string \<Rightarrow> string" where
  \<comment> \<open>\<^verbatim>\<open>str.strip()\<close>: white space removed at both ends.\<close>
  "strip s = rev (dropWhile isspace (rev (dropWhile isspace s)))"

definition first_field :: "string \<Rightarrow> string" where
  \<comment> \<open>\<^verbatim>\<open>s.split(',')[0]\<close>: the text before the first comma (all of it when there is none).\<close>
  "first_field s = takeWhile (\<lambda>c. c \<noteq> comma) s"

fun universal_newlines :: "string \<Rightarrow> string" where
  \<comment> \<open>Reading in text mode turns CR LF and a lone CR into LF.\<close>
  "universal_newlines [] = []"
| "universal_newlines [c] = (if c = CR then [LF] else [c])"
| "universal_newlines (c # d # cs) =
     (if c = CR then
        (if d = LF then LF # universal_newlines cs else LF # universal_newlines (d # cs))
      else c # universal_newlines (d # cs))"

definition read_text :: "string \<Rightarrow> string" where
  \<comment> \<open>\<^verbatim>\<open>f.read()\<close> on a file opened with \<^verbatim>\<open>open(path, 'r')\<close>.\<close>
  "read_text content = universal_newlines content"

fun split_lines :: "string \<Rightarrow> string list" where
  \<comment> \<open>The lines of a text, each with its terminating LF (the last may lack one).\<close>
  "split_lines [] = []"
| "split_lines (c # cs) =
     (if c = LF then [LF] # split_lines cs
      else (case split_lines cs of [] \<Rightarrow> [[c]] | l # ls \<Rightarrow> (c # l) # ls))"

definition readlines :: "string \<Rightarrow> string list" where
  \<comment> \<open>\<^verbatim>\<open>f.readlines()\<close> on a file opened with \<^verbatim>\<open>open(path, 'r')\<close>.\<close>
  "readlines content = split_lines (read_text content)"

definition isdigit :: "char \<Rightarrow> bool" where
  "isdigit c = (let n = (of_char c :: nat) in 48 \<le> n \<and> n \<le> 57)"

definition digit_val :: "char \<Rightarrow> int" where
  "digit_val c = int (of_char c) - 48"

fun digits_ok :: "string \<Rightarrow> bool" where
  \<comment> \<open>What may follow a digit of an integer literal: digits, and single underscores
      each followed by a digit.\<close>
  "digits_ok [] = True"
| "digits_ok [c] = isdigit c"
| "digits_ok (c # d # cs) =
     (if isdigit c then digits_ok (d # cs)
      else c = CHR ''_'' \<and> isdigit d \<and> digits_ok cs)"

definition literal_ok :: "string \<Rightarrow> bool" where
  "literal_ok s = (case s of [] \<Rightarrow> False | c # cs \<Rightarrow> isdigit c \<and> digits_ok cs)"

definition decimal :: "string \<Rightarrow> int" where
  "decimal s = foldl (\<lambda>a c. 10 * a + digit_val c) 0 (filter isdigit s)"

definition int_space :: "char \<Rightarrow> bool" where
  \<comment> \<open>The white space that \<^verbatim>\<open>int\<close> skips at both ends of its argument: unlike
      \<^verbatim>\<open>str.strip\<close> it does not skip the separators FS..US.\<close>
  "int_space c =
     (let n = (of_char c :: nat) in (9 \<le> n \<and> n \<le> 13) \<or> n = 32 \<or> n = 133 \<or> n = 160)"

definition py_int :: "string \<Rightarrow> int option" where
  \<comment> \<open>\<^verbatim>\<open>int(s)\<close> in base 10; \<open>None\<close> stands for the \<^verbatim>\<open>ValueError\<close>.\<close>
  "py_int s =
     (let t = rev (dropWhile int_space (rev (dropWhile int_space s)));
          negative = (t \<noteq> [] \<and> hd t = CHR ''-'');
          body = (if t \<noteq> [] \<and> (hd t = CHR ''-'' \<or> hd t = CHR ''+'') then tl t else t)
      in if literal_ok body then Some (if negative then - decimal body else decimal body)
         else None)"

definition digit_char :: "nat \<Rightarrow> char" where
  "digit_char d = ''0123456789'' ! d"

fun digits :: "nat \<Rightarrow> string" where
  "digits n = (if n < 10 then [digit_char n] else digits (n div 10) @ [digit_char (n mod 10)])"

declare digits.simps [simp del]

definition str_int :: "int \<Rightarrow> string" where
  \<comment> \<open>\<^verbatim>\<open>str(i)\<close>, as an f-string formats \<^verbatim>\<open>{height}\<close>.\<close>
  "str_int i = (if i < 0 then CHR ''-'' # digits (nat (- i)) else digits (nat i))"

section \<open>The explorer and its environment\<close>

text \<open>
  Log events, by the \<^verbatim>\<open>event\<close> tag and message of the source's \<^verbatim>\<open>logger\<close> calls;
  of the fields only the heights and hashes are kept.
\<close>

datatype event =
    Lock_held                    \<comment> \<open>init: "Another processor is running, exiting"\<close>
  | Init_exit                    \<comment> \<open>init: "Exiting due to existing processor"\<close>
  | Created_blocks_file          \<comment> \<open>init: "Created new blocks.csv file"\<close>
  | Found_blocks_file int        \<comment> \<open>init: "Found existing blocks.csv", last_height\<close>
  | Read_error                   \<comment> \<open>error: "Error reading blocks.csv"\<close>
  | Shutdown_initiated int       \<comment> \<open>shutdown_initiated, last_processed_height\<close>
  | Request "int option"         \<comment> \<open>request: the url, with or without a height\<close>
  | Fetch_error "int option"     \<comment> \<open>error: "Error fetching block", height\<close>
  | Append_error int             \<comment> \<open>error: "Error appending block", height\<close>
  | Block_processed int string   \<comment> \<open>block_processed, height, hash\<close>
  | Shutdown_processing int      \<comment> \<open>shutdown_processing, last_height\<close>
  | Startup
  | Shutdown_complete int        \<comment> \<open>shutdown_complete, final_height\<close>

datatype error = OSError | ValueError

text \<open>
  The two files and the fields of a \<^verbatim>\<open>BlockExplorer\<close> object.  A file that does not
  exist is \<open>None\<close>.
\<close>

record explorer =
  state_file :: "string option"
  blocks_file :: "string option"
  last_processed_height :: int
  running :: bool
  logged :: "event list"

text \<open>
  What becomes of one \<^verbatim>\<open>with open(path, mode) as f: f.write(text)\<close>.  The text
  reaches the file whole, or \<^verbatim>\<open>open\<close> raises and the file is untouched, or the file
  is opened (and created when it was missing, and emptied in mode \<^verbatim>\<open>'w'\<close>) and an
  exception is raised when only the first \<open>n\<close> characters of the text have reached
  it.  The source has no rollback, so these characters stay.
\<close>

datatype write_result = Written | Open_failed | Write_failed nat

definition write_file :: "write_result \<Rightarrow> string option \<Rightarrow> string \<Rightarrow> string option" where
  \<comment> \<open>The file after a write in mode \<^verbatim>\<open>'w'\<close>.\<close>
  "write_file w file content =
     (case w of
        Written \<Rightarrow> Some content
      | Open_failed \<Rightarrow> file
      | Write_failed n \<Rightarrow> Some (take n content))"

definition append_file :: "write_result \<Rightarrow> string option \<Rightarrow> string \<Rightarrow> string option" where
  \<comment> \<open>The file after a write in mode \<^verbatim>\<open>'a'\<close>.\<close>
  "append_file w file content =
     (let old = (case file of None \<Rightarrow> [] | Some c \<Rightarrow> c)
      in case w of
           Written \<Rightarrow> Some (old @ content)
         | Open_failed \<Rightarrow> file
         | Write_failed n \<Rightarrow> Some (old @ take n content))"

text \<open>
  What the operating system answers during \<^verbatim>\<open>__init__\<close>: whether the storage
  directory can be made, whether each file can be opened and read, and what
  becomes of the write of the marker and of the write of the header.
\<close>

record boot_env =
  dir_ok :: bool
  state_readable :: bool
  state_write :: write_result
  blocks_create :: write_result
  blocks_readable :: bool

text \<open>
  What the node answers to one HTTP request: nothing usable (any exception inside
  \<^verbatim>\<open>get_block\<close>), or a block with the height of its header and its hash
  (\<open>None\<close> for a JSON \<^verbatim>\<open>null\<close>, otherwise the text that the f-string of
  \<^verbatim>\<open>append_block\<close> writes for it).
\<close>

datatype response = Unavailable | Block int "string option"

text \<open>
  The environment of one iteration of the loop of \<^verbatim>\<open>run\<close>.  Inside one call of
  \<^verbatim>\<open>process_missing_blocks\<close> every height of the range is visited at most once, so
  the answers are indexed by the requested height: \<open>node h\<close> answers
  \<^verbatim>\<open>get_block(h)\<close>, \<open>write_ok h\<close> tells what becomes of the append of that
  iteration, and \<open>signal h\<close> whether a termination or interrupt signal has been
  delivered since the previous test of \<^verbatim>\<open>self.running\<close> when the iteration for
  \<open>h\<close> tests it.  \<open>signal_top\<close> is the same for the test of the \<^verbatim>\<open>while\<close> loop.
  The handler changes nothing that the loop reads except \<^verbatim>\<open>self.running\<close>, so
  delivering the signal at the next test gives the same files and cursor.
\<close>

record tick_env =
  head :: response
  node :: "int \<Rightarrow> response"
  write_ok :: "int \<Rightarrow> write_result"
  signal :: "int \<Rightarrow> bool"
  signal_top :: bool

datatype outcome = Started explorer | Exited int explorer | Raised error explorer

section \<open>Start-up\<close>

definition header :: string where
  "header = ''height,hash'' @ [LF]"

definition check_and_acquire_lock ::
    "boot_env \<Rightarrow> explorer \<Rightarrow> error \<times> explorer + bool \<times> explorer" where
  \<comment> \<open>\<open>Inl\<close> is an exception that leaves the method, with the files as they are then.\<close>
  "check_and_acquire_lock env s =
     (let s' = s\<lparr>state_file :=
                   write_file (state_write env) (state_file s) (''processing'' @ [LF])\<rparr>;
          acquire = (if state_write env = Written then Inr (True, s') else Inl (OSError, s'))
      in case state_file s of
           None \<Rightarrow> acquire
         | Some content \<Rightarrow>
             if \<not> state_readable env then Inl (OSError, s)
             else if strip (read_text content) = ''processing''
             then Inr (False, s\<lparr>logged := logged s @ [Lock_held]\<rparr>)
             else acquire)"

definition read_last_height :: "boot_env \<Rightarrow> string \<Rightarrow> error + int option" where
  \<comment> \<open>The body of the \<^verbatim>\<open>try\<close> of \<^verbatim>\<open>_init_blocks_file\<close>: the height of the last line
      when the file has more than one line.\<close>
  "read_last_height env content =
     (if \<not> blocks_readable env then Inl OSError
      else let lines = readlines content
           in if length lines > 1
              then (case py_int (first_field (strip (last lines))) of
                      None \<Rightarrow> Inl ValueError
                    | Some h \<Rightarrow> Inr (Some h))
              else Inr None)"

definition init_blocks_file :: "boot_env \<Rightarrow> explorer \<Rightarrow> error \<times> explorer + explorer" where
  \<comment> \<open>The creation of the file is outside the \<^verbatim>\<open>try\<close>: its exception leaves the method.\<close>
  "init_blocks_file env s =
     (case blocks_file s of
        None \<Rightarrow>
          (let s' = s\<lparr>blocks_file := write_file (blocks_create env) None header\<rparr>
           in if blocks_create env = Written
              then Inr (s'\<lparr>logged := logged s @ [Created_blocks_file]\<rparr>)
              else Inl (OSError, s'))
      | Some content \<Rightarrow>
          (case read_last_height env content of
             Inl e \<Rightarrow> Inr (s\<lparr>logged := logged s @ [Read_error]\<rparr>)
           | Inr None \<Rightarrow> Inr s
           | Inr (Some h) \<Rightarrow>
               Inr (s\<lparr>last_processed_height := h, logged := logged s @ [Found_blocks_file h]\<rparr>)))"

definition init :: "boot_env \<Rightarrow> explorer \<Rightarrow> outcome" where
  \<comment> \<open>\<^verbatim>\<open>BlockExplorer.__init__\<close> of a new process on the files of \<open>s\<close>.  An exception
      that nothing catches ends the process: \<open>Raised\<close>, with the files as they are
      then.  The last step, installing the signal handlers, changes no field.\<close>
  "init env s =
     (let s0 = s\<lparr>last_processed_height := 1, running := True\<rparr>
      in if \<not> dir_ok env then Raised OSError s0
         else case check_and_acquire_lock env s0 of
                Inl (e, s1) \<Rightarrow> Raised e s1
              | Inr (False, s1) \<Rightarrow> Exited 0 (s1\<lparr>logged := logged s1 @ [Init_exit]\<rparr>)
              | Inr (True, s1) \<Rightarrow>
                  (case init_blocks_file env s1 of
                     Inl (e, s2) \<Rightarrow> Raised e s2
                   | Inr s2 \<Rightarrow> Started s2))"

section \<open>Shutdown, fetching and appending\<close>

definition handle_shutdown :: "explorer \<Rightarrow> explorer" where
  \<comment> \<open>The handler of both signals, run to its end (the removal of the marker is
      taken not to raise); the signal number only appears in the message.\<close>
  "handle_shutdown s =
     s\<lparr>logged := logged s @ [Shutdown_initiated (last_processed_height s)],
       state_file := None,
       running := False\<rparr>"

definition get_block :: "response \<Rightarrow> int option \<Rightarrow> explorer \<Rightarrow> (int option \<times> string option) \<times> explorer" where
  \<comment> \<open>\<open>r\<close> is the node's answer to this request.\<close>
  "get_block r height s =
     (let s1 = s\<lparr>logged := logged s @ [Request height]\<rparr>
      in case r of
           Unavailable \<Rightarrow> ((None, None), s1\<lparr>logged := logged s1 @ [Fetch_error height]\<rparr>)
         | Block block_height block_hash \<Rightarrow> ((Some block_height, block_hash), s1))"

definition record_line :: "int \<Rightarrow> string \<Rightarrow> string" where
  "record_line height block_hash = str_int height @ [comma] @ block_hash @ [LF]"

definition append_block :: "write_result \<Rightarrow> int \<Rightarrow> string \<Rightarrow> explorer \<Rightarrow> bool \<times> explorer" where
  \<comment> \<open>\<open>w\<close> tells what becomes of the write.  Whatever part of the line has reached
      the file when the exception is caught stays there, and the method returns
      \<^verbatim>\<open>False\<close> with the cursor as it was.\<close>
  "append_block w height block_hash s =
     (let s' = s\<lparr>blocks_file :=
                   append_file w (blocks_file s) (record_line height block_hash)\<rparr>
      in if w = Written
         then (True, s'\<lparr>last_processed_height := height\<rparr>)
         else (False, s'\<lparr>logged := logged s @ [Append_error height]\<rparr>))"

section \<open>The catch-up loop\<close>

fun backfill :: "tick_env \<Rightarrow> int list \<Rightarrow> explorer \<Rightarrow> explorer" where
  \<comment> \<open>The \<^verbatim>\<open>for\<close> loop of \<^verbatim>\<open>process_missing_blocks\<close> over the heights still to visit.\<close>
  "backfill env [] s = s"
| "backfill env (height # rest) s =
     (let s0 = (if signal env height then handle_shutdown s else s)
      in if \<not> running s0
         then s0\<lparr>logged := logged s0 @ [Shutdown_processing (last_processed_height s0)]\<rparr>
         else
           (case get_block (node env height) (Some height) s0 of
              ((Some block_height, Some block_hash), s1) \<Rightarrow>
                (case append_block (write_ok env height) block_height block_hash s1 of
                   (True, s2) \<Rightarrow>
                     backfill env rest
                       (s2\<lparr>logged := logged s2 @ [Block_processed block_height block_hash]\<rparr>)
                 | (False, s2) \<Rightarrow> s2)
            | (_, s1) \<Rightarrow> s1))"

definition process_missing_blocks :: "tick_env \<Rightarrow> int \<Rightarrow> explorer \<Rightarrow> explorer" where
  "process_missing_blocks env current_height s =
     (if last_processed_height s < current_height
      then backfill env [last_processed_height s + 1 .. current_height] s
      else s)"

definition loop_body :: "tick_env \<Rightarrow> explorer \<Rightarrow> explorer" where
  \<comment> \<open>One pass through the body of the \<^verbatim>\<open>while\<close> loop of \<^verbatim>\<open>run\<close>.  The pauses are
      left out, and so is the \<^verbatim>\<open>except\<close> branch: \<^verbatim>\<open>get_block\<close> and \<^verbatim>\<open>append_block\<close>
      catch what their own statements raise.\<close>
  "loop_body env s =
     (case get_block (head env) None s of
        ((Some current_height, current_hash), s1) \<Rightarrow> process_missing_blocks env current_height s1
      | ((None, current_hash), s1) \<Rightarrow> s1)"

definition tick :: "tick_env \<Rightarrow> explorer \<Rightarrow> explorer" where
  \<comment> \<open>The test of \<^verbatim>\<open>while self.running\<close> and, when it holds, the body.\<close>
  "tick env s =
     (let s0 = (if signal_top env then handle_shutdown s else s)
      in if running s0 then loop_body env s0 else s0)"

fun run_loop :: "tick_env list \<Rightarrow> explorer \<Rightarrow> explorer" where
  \<comment> \<open>The \<^verbatim>\<open>while\<close> loop of \<^verbatim>\<open>run\<close>, one environment for each iteration.  The loop
      ends when the flag is found cleared.  When the environments run out first,
      the result is the state reached so far, with the flag still set: the
      process is still looping, or was killed there.\<close>
  "run_loop [] s = s"
| "run_loop (env # envs) s =
     (let s' = tick env s in if running s' then run_loop envs s' else s')"

definition run :: "tick_env list \<Rightarrow> explorer \<Rightarrow> explorer" where
  "run envs s =
     (let s1 = run_loop envs (s\<lparr>logged := logged s @ [Startup]\<rparr>)
      in if running s1 then s1
         else s1\<lparr>logged := logged s1 @ [Shutdown_complete (last_processed_height s1)]\<rparr>)"

section \<open>Successive processes\<close>

fun sessions :: "(boot_env \<times> tick_env list) list \<Rightarrow> explorer \<Rightarrow> explorer" where
  \<comment> \<open>Processes started one after the other on the same storage directory: each
      pair gives what one process meets at start-up and in the iterations of its
      loop before it ends.  A process that does not start leaves the files as
      \<^verbatim>\<open>__init__\<close> left them.\<close>
  "sessions [] s = s"
| "sessions ((benv, envs) # runs) s =
     sessions runs
       (case init benv s of
          Started s' \<Rightarrow> run envs s'
        | Exited code s' \<Rightarrow> s'
        | Raised e s' \<Rightarrow> s')"

section \<open>Notions used in the statements\<close>

text \<open>
  The text and the log entries that successful iterations for the heights \<open>xs\<close>
  produce when the block at height \<open>h\<close> has hash \<open>hs h\<close>.
\<close>

definition records_text :: "(int \<Rightarrow> string) \<Rightarrow> int list \<Rightarrow> string" where
  "records_text hs xs = concat (map (\<lambda>h. record_line h (hs h)) xs)"

definition fetch_log :: "(int \<Rightarrow> string) \<Rightarrow> int list \<Rightarrow> event list" where
  "fetch_log hs xs = concat (map (\<lambda>h. [Request (Some h), Block_processed h (hs h)]) xs)"

text \<open>
  The heights of the records of a ledger: every line after the header, read the
  way \<^verbatim>\<open>_init_blocks_file\<close> reads the last one.  A ledger is ordered when every
  record has a height and each height is the previous one plus 1.
\<close>

definition record_heights :: "string \<Rightarrow> int option list" where
  "record_heights content = map (\<lambda>l. py_int (first_field (strip l))) (tl (readlines content))"



text \<open>
  A node is faithful in an iteration when every block it returns for a request by
  height has the requested height, and tidy when the hashes it returns hold no
  line break.
\<close>

definition no_linebreak :: "string \<Rightarrow> bool" where
  "no_linebreak x = (LF \<notin> set x \<and> CR \<notin> set x)"

definition faithful :: "tick_env \<Rightarrow> bool" where
  "faithful env = (\<forall>h bh x. node env h = Block bh x \<longrightarrow> bh = h)"




text \<open>
  The invariant behind the ordering of the ledger.  A ledger is kept up to \<open>c\<close>
  when it is the header followed by one record for each of the heights \<open>2..c\<close>, in
  order; an explorer is in step when its ledger is kept up to its cursor.
\<close>

definition ledger_of :: "(int \<times> string) list \<Rightarrow> string" where
  "ledger_of recs = header @ concat (map (\<lambda>(h, x). record_line h x) recs)"

definition kept :: "int \<Rightarrow> string option \<Rightarrow> bool" where
  "kept c f = (1 \<le> c \<and> (\<exists>recs. f = Some (ledger_of recs) \<and> map fst recs = [2..c]
                 \<and> (\<forall>(h, x)\<in>set recs. no_linebreak x)))"

definition in_step :: "explorer \<Rightarrow> bool" where
  "in_step s = kept (last_processed_height s) (blocks_file s)"


definition file_size :: "string option \<Rightarrow> nat" where
  "file_size f = (case f of None \<Rightarrow> 0 | Some content \<Rightarrow> Suc (length content))"

section \<open>Example states and environments\<close>

definition no_files :: explorer where
  \<comment> \<open>An empty storage directory; the fields of the object are set by \<open>init\<close>.\<close>
  "no_files = \<lparr>state_file = None, blocks_file = None, last_processed_height = 0,
                running = False, logged = []\<rparr>"

definition resumed :: explorer where
  \<comment> \<open>A running explorer whose ledger ends with the record of height 2.\<close>
  "resumed = \<lparr>state_file = Some (''processing'' @ [LF]),
               blocks_file = Some (header @ ''2,AB'' @ [LF]),
               last_processed_height = 2, running = True, logged = []\<rparr>"

definition fine :: boot_env where
  "fine = \<lparr>dir_ok = True, state_readable = True, state_write = Written,
            blocks_create = Written, blocks_readable = True\<rparr>"

definition honest :: "int \<Rightarrow> tick_env" where
  \<comment> \<open>A node with head \<open>H\<close> that answers every request with the requested height.\<close>
  "honest H = \<lparr>head = Block H (Some ''AB''), node = (\<lambda>h. Block h (Some ''AB'')),
                write_ok = (\<lambda>h. Written), signal = (\<lambda>h. False), signal_top = False\<rparr>"



definition interrupted :: "int \<Rightarrow> int \<Rightarrow> tick_env" where
  \<comment> \<open>As \<open>honest H\<close>, with a signal delivered before the iteration for height \<open>f\<close>.\<close>
  "interrupted H f = (honest H)\<lparr>signal := (\<lambda>h. h = f)\<rparr>"



definition lagging :: "int \<Rightarrow> tick_env" where
  \<comment> \<open>A node that answers the request for height \<open>h\<close> with the block at \<open>h - 2\<close>.\<close>
  "lagging H = (honest H)\<lparr>node := (\<lambda>h. Block (h - 2) (Some ''AB''))\<rparr>"

definition corrupt_ledger :: explorer where
  \<comment> \<open>A ledger whose last line is not a record.\<close>
  "corrupt_ledger = no_files\<lparr>blocks_file := Some (header @ ''12,AB'' @ [LF] @ ''garbage'' @ [LF])\<rparr>"

section \<open>The loop, step by step\<close>

lemma last_before_upto: "i \<le> j + 1 \<Longrightarrow> last ((i - 1) # [i..j]) = j"
proof (cases "i \<le> j")
  case True
  then have "[i..j] = [i..j - 1] @ [j]" by (rule upto_rec2)
  then show ?thesis by simp
next
  case False
  assume "i \<le> j + 1"
  with False show ?thesis by simp
qed


text \<open>
  As long as the node returns the requested blocks, the appends succeed and no
  signal arrives, the loop writes one record per height and moves the cursor on.
\<close>

lemma backfill_success_prefix:
  assumes "running s" and "blocks_file s = Some content"
    and "\<forall>h\<in>set xs. node env h = Block h (Some (hs h)) \<and> write_ok env h = Written \<and> \<not> signal env h"
  shows "backfill env (xs @ ys) s =
         backfill env ys (s\<lparr>blocks_file := Some (content @ records_text hs xs),
                            last_processed_height := last (last_processed_height s # xs),
                            logged := logged s @ fetch_log hs xs\<rparr>)"
  using assms
proof (induction xs arbitrary: s content)
  case Nil
  then have "s\<lparr>blocks_file := Some content\<rparr> = s" by (cases s) simp
  then show ?case by (simp add: records_text_def fetch_log_def)
next
  case (Cons h xs)
  let ?s' = "s\<lparr>blocks_file := Some (content @ record_line h (hs h)),
                last_processed_height := h,
                logged := logged s @ [Request (Some h), Block_processed h (hs h)]\<rparr>"
  have step: "backfill env ((h # xs) @ ys) s = backfill env (xs @ ys) ?s'"
    using Cons.prems by (simp add: get_block_def append_block_def append_file_def)
  have "backfill env (xs @ ys) ?s' =
        backfill env ys (?s'\<lparr>blocks_file := Some ((content @ record_line h (hs h)) @ records_text hs xs),
                            last_processed_height := last (last_processed_height ?s' # xs),
                            logged := logged ?s' @ fetch_log hs xs\<rparr>)"
    using Cons.prems by (intro Cons.IH) simp_all
  with step show ?case
    by (simp add: records_text_def fetch_log_def)
qed

lemma tick_backfill:
  assumes "running s" and "\<not> signal_top env" and "head env = Block H x"
    and "last_processed_height s = k" and "k < H"
  shows "tick env s = backfill env [k + 1..H] (s\<lparr>logged := logged s @ [Request None]\<rparr>)"
  using assms by (simp add: tick_def loop_body_def get_block_def process_missing_blocks_def)

text \<open>
  One iteration either leaves the ledger and the cursor as they are and ends the
  loop, or ends the loop on an append that failed after part of its line had
  reached the ledger, or appends the record the node returned and goes on.
\<close>

lemma backfill_step:
  obtains (stop) "blocks_file (backfill env (h # rest) s) = blocks_file s"
      and "last_processed_height (backfill env (h # rest) s) = last_processed_height s"
  | (torn) bh x n where "node env h = Block bh (Some x)" and "write_ok env h = Write_failed n"
      and "blocks_file (backfill env (h # rest) s) =
             Some ((case blocks_file s of None \<Rightarrow> [] | Some content \<Rightarrow> content)
                   @ take n (record_line bh x))"
      and "last_processed_height (backfill env (h # rest) s) = last_processed_height s"
  | (go) bh x t where "node env h = Block bh (Some x)"
      and "blocks_file t =
             Some ((case blocks_file s of None \<Rightarrow> [] | Some content \<Rightarrow> content) @ record_line bh x)"
      and "last_processed_height t = bh"
      and "backfill env (h # rest) s = backfill env rest t"
proof (cases "signal env h \<or> \<not> running s")
  case True
  then have "blocks_file (backfill env (h # rest) s) = blocks_file s"
    and "last_processed_height (backfill env (h # rest) s) = last_processed_height s"
    by (auto simp add: handle_shutdown_def)
  then show ?thesis by (rule stop)
next
  case False
  then have quiet: "\<not> signal env h" "running s" by simp_all
  show ?thesis
  proof (cases "node env h")
    case Unavailable
    with quiet have "blocks_file (backfill env (h # rest) s) = blocks_file s"
      and "last_processed_height (backfill env (h # rest) s) = last_processed_height s"
      by (simp_all add: get_block_def)
    then show ?thesis by (rule stop)
  next
    case (Block bh y)
    show ?thesis
    proof (cases y)
      case None
      with quiet Block have "blocks_file (backfill env (h # rest) s) = blocks_file s"
        and "last_processed_height (backfill env (h # rest) s) = last_processed_height s"
        by (simp_all add: get_block_def)
      then show ?thesis by (rule stop)
    next
      case (Some x)
      show ?thesis
      proof (cases "write_ok env h")
        case Written
        let ?t = "s\<lparr>logged := logged s @ [Request (Some h)],
                    blocks_file :=
                      Some ((case blocks_file s of None \<Rightarrow> [] | Some content \<Rightarrow> content)
                            @ record_line bh x),
                    last_processed_height := bh,
                    logged := logged s @ [Request (Some h), Block_processed bh x]\<rparr>"
        have eq: "backfill env (h # rest) s = backfill env rest ?t"
          using quiet Block Some Written
          by (simp add: get_block_def append_block_def append_file_def)
        show ?thesis
        proof (rule go [of bh x ?t])
          show "node env h = Block bh (Some x)" using Block Some by simp
          show "blocks_file ?t =
                  Some ((case blocks_file s of None \<Rightarrow> [] | Some content \<Rightarrow> content)
                        @ record_line bh x)"
            by simp
          show "last_processed_height ?t = bh" by simp
          show "backfill env (h # rest) s = backfill env rest ?t" by (fact eq)
        qed
      next
        case Open_failed
        with quiet Block Some have "blocks_file (backfill env (h # rest) s) = blocks_file s"
          and "last_processed_height (backfill env (h # rest) s) = last_processed_height s"
          by (simp_all add: get_block_def append_block_def append_file_def)
        then show ?thesis by (rule stop)
      next
        case (Write_failed n)
        show ?thesis
        proof (rule torn [of bh x n])
          show "node env h = Block bh (Some x)" using Block Some by simp
          show "write_ok env h = Write_failed n" by (fact Write_failed)
          show "blocks_file (backfill env (h # rest) s) =
                  Some ((case blocks_file s of None \<Rightarrow> [] | Some content \<Rightarrow> content)
                        @ take n (record_line bh x))"
            using quiet Block Some Write_failed
            by (simp add: get_block_def append_block_def append_file_def)
          show "last_processed_height (backfill env (h # rest) s) = last_processed_height s"
            using quiet Block Some Write_failed
            by (simp add: get_block_def append_block_def append_file_def)
        qed
      qed
    qed
  qed
qed

section \<open>No work when the head is not ahead\<close>

text \<open>
  C9.  When the head height that the tick fetched is at most the cursor,
  \<^verbatim>\<open>process_missing_blocks\<close> returns the explorer as it was: no request by height
  is logged, the ledger and the cursor are unchanged.  The whole iteration of
  \<^verbatim>\<open>run\<close> adds the one request for the head to the log and nothing else.
\<close>

theorem head_not_ahead_no_mutation:
  assumes "head env = Block H x" and "H \<le> last_processed_height s"
    and "running s" and "\<not> signal_top env"
  shows "process_missing_blocks env H s = s
    \<and> tick env s = s\<lparr>logged := logged s @ [Request None]\<rparr>"
  using assms by (simp add: process_missing_blocks_def tick_def loop_body_def get_block_def)

theorem head_not_ahead_no_mutation_witness:
  "process_missing_blocks (honest 2) 2 resumed = resumed
   \<and> tick (honest 2) resumed = resumed\<lparr>logged := [Request None]\<rparr>"
  using head_not_ahead_no_mutation [of "honest 2" 2 "Some ''AB''" resumed]
  by (simp add: honest_def resumed_def)

section \<open>One unobstructed tick\<close>

text \<open>
  Whatever the distance to the head, an unobstructed tick appends the records of
  all the heights above the cursor up to the head, and moves the cursor there.
\<close>

lemma tick_catches_up:
  assumes "running s" and "\<not> signal_top env"
    and "blocks_file s = Some content" and "last_processed_height s = k"
    and "head env = Block H x" and "k < H"
    and "\<forall>h\<in>{k + 1..H}. node env h = Block h (Some (hs h)) \<and> write_ok env h = Written \<and> \<not> signal env h"
  shows "tick env s =
           s\<lparr>blocks_file := Some (content @ records_text hs [k + 1..H]),
             last_processed_height := H,
             logged := logged s @ Request None # fetch_log hs [k + 1..H]\<rparr>"
proof -
  let ?s = "s\<lparr>logged := logged s @ [Request None]\<rparr>"
  have "tick env s = backfill env ([k + 1..H] @ []) ?s"
    using assms tick_backfill [of s env H x k] by simp
  also have "\<dots> =
        backfill env [] (?s\<lparr>blocks_file := Some (content @ records_text hs [k + 1..H]),
                            last_processed_height := last (last_processed_height ?s # [k + 1..H]),
                            logged := logged ?s @ fetch_log hs [k + 1..H]\<rparr>)"
    using assms by (intro backfill_success_prefix) simp_all
  finally show ?thesis
    using assms last_before_upto [of "k + 1" H] by simp
qed

text \<open>
  C1.  The cursor holds the tail height \<open>k\<close> of the ledger and the head is at
  \<open>k + 5\<close>.  When the running flag is set, no signal arrives, every request for
  a height \<open>h\<close> of \<open>k + 1 .. k + 5\<close> returns the block of height \<open>h\<close> and every
  append succeeds, one tick appends the records for \<open>k + 1\<close> to \<open>k + 5\<close> to the ledger, in
  increasing order and nothing else, and leaves the cursor at \<open>k + 5\<close>.
\<close>

theorem one_tick_catches_up_five:
  assumes "running s" and "\<not> signal_top env"
    and "blocks_file s = Some content" and "last_processed_height s = k"
    and "head env = Block (k + 5) x"
    and "\<forall>h\<in>{k + 1..k + 5}. node env h = Block h (Some (hs h)) \<and> write_ok env h = Written \<and> \<not> signal env h"
  shows "blocks_file (tick env s) =
           Some (content @ record_line (k + 1) (hs (k + 1)) @ record_line (k + 2) (hs (k + 2))
                   @ record_line (k + 3) (hs (k + 3)) @ record_line (k + 4) (hs (k + 4))
                   @ record_line (k + 5) (hs (k + 5)))
       \<and> last_processed_height (tick env s) = k + 5"
proof -
  let ?s = "s\<lparr>logged := logged s @ [Request None]\<rparr>"
  have t: "tick env s = backfill env ([k + 1..k + 5] @ []) ?s"
    using assms tick_backfill [of s env "k + 5" x k] by simp
  have "backfill env ([k + 1..k + 5] @ []) ?s =
        backfill env [] (?s\<lparr>blocks_file := Some (content @ records_text hs [k + 1..k + 5]),
                            last_processed_height := last (last_processed_height ?s # [k + 1..k + 5]),
                            logged := logged ?s @ fetch_log hs [k + 1..k + 5]\<rparr>)"
    using assms by (intro backfill_success_prefix) simp_all
  moreover have "last (k # [k + 1..k + 5]) = k + 5"
    using last_before_upto [of "k + 1" "k + 5"] by simp
  moreover have "records_text hs [k + 1..k + 5] =
      record_line (k + 1) (hs (k + 1)) @ record_line (k + 2) (hs (k + 2))
        @ record_line (k + 3) (hs (k + 3)) @ record_line (k + 4) (hs (k + 4))
        @ record_line (k + 5) (hs (k + 5))"
    by (simp add: records_text_def upto_rec1 add.commute)
  ultimately show ?thesis
    using t assms by simp
qed

theorem one_tick_catches_up_five_witness:
  "blocks_file (tick (honest 7) resumed) =
     Some (header @ ''2,AB'' @ [LF] @ ''3,AB'' @ [LF] @ ''4,AB'' @ [LF] @ ''5,AB'' @ [LF]
             @ ''6,AB'' @ [LF] @ ''7,AB'' @ [LF])
   \<and> last_processed_height (tick (honest 7) resumed) = 7"
  using one_tick_catches_up_five
    [of resumed "honest 7" "header @ ''2,AB'' @ [LF]" 2 "Some ''AB''" "\<lambda>h. ''AB''"]
  by (simp add: resumed_def honest_def record_line_def str_int_def digits.simps digit_char_def)

section \<open>Halting at the first failure\<close>

text \<open>
  Whatever happened before, an iteration whose fetch or append fails ends the
  loop where it stands: the cursor is the one the iteration found, the heights
  after it are not visited, and the ledger is the one the iteration found
  followed by whatever part of its line the failed append had written.
\<close>

lemma failure_stops_backfill:
  assumes "running s" and "\<not> signal env h"
    and "case node env h of Unavailable \<Rightarrow> True | Block bh None \<Rightarrow> True
           | Block bh (Some y) \<Rightarrow> write_ok env h \<noteq> Written"
  shows "backfill env (h # rest) s =
           (case node env h of
              Unavailable \<Rightarrow> s\<lparr>logged := logged s @ [Request (Some h), Fetch_error (Some h)]\<rparr>
            | Block bh None \<Rightarrow> s\<lparr>logged := logged s @ [Request (Some h)]\<rparr>
            | Block bh (Some y) \<Rightarrow>
                s\<lparr>blocks_file := append_file (write_ok env h) (blocks_file s) (record_line bh y),
                  logged := logged s @ [Request (Some h), Append_error bh]\<rparr>)"
proof (cases "node env h")
  case Unavailable
  with assms show ?thesis by (simp add: get_block_def)
next
  case (Block bh y)
  with assms show ?thesis
    by (cases y) (simp_all add: get_block_def append_block_def)
qed




section \<open>Shutdown during the backfill\<close>

text \<open>
  C8.  When the running flag is cleared as the iteration for height \<open>h\<close> begins
  (it was already cleared, or a signal has been delivered since the last test),
  the loop ends at once: the ledger and the cursor are the ones the last
  successful append left, whatever the node would have answered for \<open>h\<close> and the
  heights after it, and the log gains no request, only the entries of the
  shutdown.
\<close>

theorem shutdown_stops_backfill:
  assumes "\<not> running s \<or> signal env h"
  shows "blocks_file (backfill env (h # rest) s) = blocks_file s
       \<and> last_processed_height (backfill env (h # rest) s) = last_processed_height s
       \<and> logged (backfill env (h # rest) s) =
           logged s @ (if signal env h then [Shutdown_initiated (last_processed_height s)] else [])
             @ [Shutdown_processing (last_processed_height s)]"
  using assms by (auto simp add: handle_shutdown_def)

theorem shutdown_stops_backfill_witness:
  "blocks_file (backfill (interrupted 7 3) [3, 4, 5, 6, 7] resumed) = blocks_file resumed
   \<and> last_processed_height (backfill (interrupted 7 3) [3, 4, 5, 6, 7] resumed) = 2
   \<and> logged (backfill (interrupted 7 3) [3, 4, 5, 6, 7] resumed) =
       [Shutdown_initiated 2, Shutdown_processing 2]"
  using shutdown_stops_backfill [of resumed "interrupted 7 3" 3 "[4, 5, 6, 7]"]
  by (simp add: interrupted_def honest_def resumed_def)

text \<open>
  The same inside a tick: a signal delivered after the records for
  \<open>k + 1 .. h - 1\<close> have been appended ends the tick with the ledger's tail and
  the cursor at \<open>h - 1\<close>, the lock marker removed and the flag cleared.
\<close>

lemma shutdown_mid_backfill:
  assumes "running s" and "\<not> signal_top env"
    and "blocks_file s = Some content" and "last_processed_height s = k"
    and "head env = Block H x" and "k < h" and "h \<le> H"
    and "\<forall>i\<in>{k + 1..h - 1}. node env i = Block i (Some (hs i)) \<and> write_ok env i = Written \<and> \<not> signal env i"
    and "signal env h"
  shows "tick env s =
           s\<lparr>blocks_file := Some (content @ records_text hs [k + 1..h - 1]),
             last_processed_height := h - 1,
             logged := logged s @ Request None # fetch_log hs [k + 1..h - 1]
                         @ [Shutdown_initiated (h - 1), Shutdown_processing (h - 1)],
             state_file := None,
             running := False\<rparr>"
proof -
  let ?s = "s\<lparr>logged := logged s @ [Request None]\<rparr>"
  let ?s' = "?s\<lparr>blocks_file := Some (content @ records_text hs [k + 1..h - 1]),
               last_processed_height := last (last_processed_height ?s # [k + 1..h - 1]),
               logged := logged ?s @ fetch_log hs [k + 1..h - 1]\<rparr>"
  have split: "[k + 1..H] = [k + 1..h - 1] @ h # [h + 1..H]"
    using assms by (intro upto_split3) simp_all
  have "tick env s = backfill env ([k + 1..h - 1] @ h # [h + 1..H]) ?s"
    using assms tick_backfill [of s env H x k] split by simp
  also have "\<dots> = backfill env (h # [h + 1..H]) ?s'"
    using assms by (intro backfill_success_prefix) simp_all
  finally have t: "tick env s = backfill env (h # [h + 1..H]) ?s'" .
  have l: "last (k # [k + 1..h - 1]) = h - 1"
    using last_before_upto [of "k + 1" "h - 1"] assms by simp
  from t l assms show ?thesis by (simp add: handle_shutdown_def)
qed

section \<open>The lock marker\<close>

text \<open>
  C7.  When the marker file exists and its content as read, white space at the
  ends apart, is \<^verbatim>\<open>processing\<close>, the acquisition returns false and changes no file, and
  \<^verbatim>\<open>__init__\<close> ends the process with exit code 0: the files are the ones it found,
  whatever the ledger holds and whether or not it can be read, and the log has
  the two entries of the refusal.
\<close>

theorem held_lock_exits:
  assumes "state_file s = Some content" and "strip (read_text content) = ''processing''"
    and "dir_ok env" and "state_readable env"
  shows "check_and_acquire_lock env s = Inr (False, s\<lparr>logged := logged s @ [Lock_held]\<rparr>)
       \<and> init env s = Exited 0 (s\<lparr>last_processed_height := 1, running := True,
                                   logged := logged s @ [Lock_held, Init_exit]\<rparr>)"
  using assms by (simp add: check_and_acquire_lock_def init_def Let_def)

theorem held_lock_exits_witness:
  "check_and_acquire_lock fine resumed = Inr (False, resumed\<lparr>logged := [Lock_held]\<rparr>)
   \<and> init fine resumed = Exited 0 (resumed\<lparr>last_processed_height := 1, running := True,
                                           logged := [Lock_held, Init_exit]\<rparr>)"
  using held_lock_exits [of resumed "''processing'' @ [LF]" fine]
  by (simp add: resumed_def fine_def read_text_def strip_def isspace_def)

lemma init_blocks_file_state_file:
  "init_blocks_file env s = Inr s' \<Longrightarrow> state_file s' = state_file s"
  by (auto simp add: init_blocks_file_def Let_def split: option.splits sum.splits if_splits)

lemma init_blocks_file_returns:
  assumes "blocks_file s = None \<longrightarrow> blocks_create env = Written"
  shows "\<exists>s'. init_blocks_file env s = Inr s'"
proof (cases "blocks_file s")
  case None
  with assms show ?thesis by (simp add: init_blocks_file_def Let_def)
next
  case (Some content)
  then show ?thesis
    by (cases "read_last_height env content") (auto simp add: init_blocks_file_def split: option.splits)
qed

text \<open>
  C10.  When the marker file exists with any other content, the acquisition
  overwrites it with \<^verbatim>\<open>processing\<close> and returns true, and \<^verbatim>\<open>__init__\<close> goes on to
  the ledger: the process starts, holding the marker.
\<close>

theorem stale_marker_overwritten:
  assumes "state_file s = Some content" and "strip (read_text content) \<noteq> ''processing''"
    and "state_readable env" and "state_write env = Written"
  shows "check_and_acquire_lock env s = Inr (True, s\<lparr>state_file := Some (''processing'' @ [LF])\<rparr>)
       \<and> (dir_ok env \<and> (blocks_file s = None \<longrightarrow> blocks_create env = Written) \<longrightarrow>
            (\<exists>s'. init env s = Started s' \<and> state_file s' = Some (''processing'' @ [LF])))"
proof -
  have a: "\<And>t. state_file t = Some content \<Longrightarrow>
       check_and_acquire_lock env t = Inr (True, t\<lparr>state_file := Some (''processing'' @ [LF])\<rparr>)"
    using assms by (simp add: check_and_acquire_lock_def write_file_def Let_def)
  have "\<exists>s'. init env s = Started s' \<and> state_file s' = Some (''processing'' @ [LF])"
    if "dir_ok env" and "blocks_file s = None \<longrightarrow> blocks_create env = Written"
  proof -
    let ?s1 = "s\<lparr>last_processed_height := 1, running := True, state_file := Some (''processing'' @ [LF])\<rparr>"
    have "\<exists>s2. init_blocks_file env ?s1 = Inr s2"
      using that by (intro init_blocks_file_returns) simp
    then obtain s2 where s2: "init_blocks_file env ?s1 = Inr s2" ..
    then have "state_file s2 = Some (''processing'' @ [LF])"
      using init_blocks_file_state_file [OF s2] by simp
    with s2 that assms show ?thesis
      by (simp add: init_def a)
  qed
  with a assms show ?thesis by simp
qed

theorem stale_marker_overwritten_witness:
  "check_and_acquire_lock fine (no_files\<lparr>state_file := Some ''''\<rparr>)
     = Inr (True, no_files\<lparr>state_file := Some (''processing'' @ [LF])\<rparr>)
   \<and> (\<exists>s'. init fine (no_files\<lparr>state_file := Some ''''\<rparr>) = Started s'
          \<and> state_file s' = Some (''processing'' @ [LF]))"
  using stale_marker_overwritten [of "no_files\<lparr>state_file := Some ''''\<rparr>" "''''" fine]
  by (simp add: no_files_def fine_def read_text_def strip_def)

section \<open>Reading back what was written\<close>



























section \<open>The ordering of the ledger\<close>




lemma in_step_logged [simp]: "in_step (s\<lparr>logged := l\<rparr>) = in_step s"
  by (simp add: in_step_def)




















section \<open>The cursor\<close>

lemma record_line_nonempty: "record_line h x \<noteq> []"
  by (simp add: record_line_def)

lemma backfill_grows:
  "(blocks_file (backfill env xs s) = blocks_file s
      \<and> last_processed_height (backfill env xs s) = last_processed_height s)
   \<or> file_size (blocks_file s) < file_size (blocks_file (backfill env xs s))"
proof (induction xs arbitrary: s)
  case Nil
  then show ?case by simp
next
  case (Cons h rest)
  show ?case
  proof (cases rule: backfill_step [of env h rest s])
    case stop
    then show ?thesis by blast
  next
    case (torn bh x n)
    show ?thesis
    proof (cases "n = 0 \<and> blocks_file s \<noteq> None")
      case True
      then have "Some ((case blocks_file s of None \<Rightarrow> [] | Some content \<Rightarrow> content)
                       @ take n (record_line bh x)) = blocks_file s"
        by auto
      then have "blocks_file (backfill env (h # rest) s) = blocks_file s"
        by (simp only: torn(3))
      with torn(4) show ?thesis by blast
    next
      case False
      have "take n (record_line bh x) \<noteq> [] \<or> blocks_file s = None"
        using False record_line_nonempty [of bh x] by auto
      then have "file_size (blocks_file s)
                 < file_size (Some ((case blocks_file s of None \<Rightarrow> [] | Some content \<Rightarrow> content)
                                    @ take n (record_line bh x)))"
        by (cases "blocks_file s") (auto simp add: file_size_def)
      then have "file_size (blocks_file s) < file_size (blocks_file (backfill env (h # rest) s))"
        by (simp only: torn(3))
      then show ?thesis by blast
    qed
  next
    case (go bh x t)
    have "file_size (blocks_file s) < file_size (blocks_file t)"
      using go(2) record_line_nonempty [of bh x]
      by (cases "blocks_file s") (simp_all add: file_size_def)
    moreover have "file_size (blocks_file t) \<le> file_size (blocks_file (backfill env rest t))"
      using Cons.IH [of t] by auto
    ultimately show ?thesis by (simp only: go(4)) simp
  qed
qed

lemma tick_unchanged_ledger:
  assumes "blocks_file (tick env s) = blocks_file s"
  shows "last_processed_height (tick env s) = last_processed_height s"
proof -
  let ?s0 = "if signal_top env then handle_shutdown s else s"
  have s0: "blocks_file ?s0 = blocks_file s" "last_processed_height ?s0 = last_processed_height s"
    by (simp_all add: handle_shutdown_def)
  show ?thesis
  proof (cases "running ?s0")
    case False
    with s0 show ?thesis by (simp add: tick_def Let_def)
  next
    case True
    show ?thesis
    proof (cases "head env")
      case Unavailable
      with True s0 show ?thesis by (simp add: tick_def Let_def loop_body_def get_block_def)
    next
      case (Block H x)
      let ?t = "?s0\<lparr>logged := logged ?s0 @ [Request None]\<rparr>"
      show ?thesis
      proof (cases "last_processed_height ?s0 < H")
        case False
        with Block True s0 show ?thesis
          by (simp add: tick_def Let_def loop_body_def get_block_def process_missing_blocks_def)
      next
        case ahead: True
        have t: "tick env s = backfill env [last_processed_height ?t + 1..H] ?t"
          using Block True ahead
          by (simp add: tick_def Let_def loop_body_def get_block_def process_missing_blocks_def)
        have "blocks_file ?t = blocks_file s" "last_processed_height ?t = last_processed_height s"
          using s0 by simp_all
        with assms show ?thesis
          using backfill_grows [of env "[last_processed_height ?t + 1..H]" ?t]
          by (simp only: t) auto
      qed
    qed
  qed
qed

lemma backfill_cursor:
  assumes "faithful env"
  shows "last_processed_height s < i \<Longrightarrow>
         last_processed_height s \<le> last_processed_height (backfill env [i..j] s)"
proof (induction i j arbitrary: s rule: upto.induct)
  case (1 i j)
  show ?case
  proof (cases "i \<le> j")
    case False
    then show ?thesis by simp
  next
    case True
    then have range: "[i..j] = i # [i + 1..j]" by (rule upto_rec1)
    show ?thesis
    proof (cases rule: backfill_step [of env i "[i + 1..j]" s])
      case stop
      then show ?thesis unfolding range by simp
    next
      case (torn bh x n)
      show ?thesis unfolding range by (simp only: torn(4))
    next
      case (go bh x t)
      from go(1) assms have "bh = i" by (auto simp add: faithful_def)
      with go(3) have "last_processed_height t < i + 1" by simp
      with True have "last_processed_height t \<le> last_processed_height (backfill env [i + 1..j] t)"
        by (rule "1.IH")
      with go(3) \<open>bh = i\<close> "1.prems" show ?thesis unfolding range by (simp only: go(4))
    qed
  qed
qed

lemma loop_body_cursor:
  assumes "faithful env"
  shows "last_processed_height t \<le> last_processed_height (loop_body env t)"
proof (cases "head env")
  case Unavailable
  then show ?thesis by (simp add: loop_body_def get_block_def)
next
  case (Block H x)
  let ?t = "t\<lparr>logged := logged t @ [Request None]\<rparr>"
  have "last_processed_height ?t \<le> last_processed_height (backfill env [last_processed_height ?t + 1..H] ?t)"
    using assms by (intro backfill_cursor) simp_all
  with Block show ?thesis
    by (simp add: loop_body_def get_block_def process_missing_blocks_def)
qed

lemma tick_cursor:
  assumes "faithful env"
  shows "last_processed_height s \<le> last_processed_height (tick env s)"
  using loop_body_cursor [OF assms, of s]
  by (simp add: tick_def handle_shutdown_def)

lemma run_loop_cursor:
  "\<forall>env\<in>set envs. faithful env \<Longrightarrow>
   last_processed_height s \<le> last_processed_height (run_loop envs s)"
proof (induction envs arbitrary: s)
  case Nil
  then show ?case by simp
next
  case (Cons env envs)
  then have "last_processed_height s \<le> last_processed_height (tick env s)"
    by (intro tick_cursor) simp
  moreover have "last_processed_height (tick env s) \<le> last_processed_height (run_loop envs (tick env s))"
    using Cons.prems by (intro Cons.IH) simp
  ultimately show ?case by (simp add: Let_def)
qed

text \<open>
  C5, as amended.  The cursor changes only when an append succeeds: a tick that
  leaves the ledger as it was leaves the cursor as it was, a successful
  \<^verbatim>\<open>append_block\<close> sets the cursor to the height it appended, and a failed one,
  however it fails, leaves it alone.  Over the iterations of a run the cursor never decreases,
  provided that every block returned for a request by height has the requested
  height.
\<close>

theorem cursor_follows_appends:
  "(blocks_file (tick env s) = blocks_file s \<longrightarrow>
      last_processed_height (tick env s) = last_processed_height s)
   \<and> last_processed_height (snd (append_block Written h x s)) = h
   \<and> (w \<noteq> Written \<longrightarrow>
        last_processed_height (snd (append_block w h x s)) = last_processed_height s)
   \<and> ((\<forall>env\<in>set envs. faithful env) \<longrightarrow>
        last_processed_height s \<le> last_processed_height (run_loop envs s))"
  using tick_unchanged_ledger [of env s] run_loop_cursor [of envs s]
  by (simp add: append_block_def)

theorem cursor_follows_appends_witness:
  "blocks_file (tick (honest 2) resumed) = blocks_file resumed
   \<and> last_processed_height (tick (honest 2) resumed) = last_processed_height resumed
   \<and> last_processed_height (snd (append_block Written 3 ''AB'' resumed)) = 3
   \<and> last_processed_height (snd (append_block (Write_failed 2) 3 ''AB'' resumed))
       = last_processed_height resumed
   \<and> last_processed_height resumed \<le> last_processed_height (run_loop [honest 4, honest 6] resumed)"
proof -
  have "blocks_file (tick (honest 2) resumed) = blocks_file resumed"
    by (simp add: tick_def loop_body_def get_block_def process_missing_blocks_def honest_def
          resumed_def)
  moreover have "\<forall>env\<in>set [honest 4, honest 6]. faithful env"
    by (simp add: faithful_def honest_def)
  ultimately show ?thesis
    using cursor_follows_appends
      [of "honest 2" resumed 3 "''AB''" "Write_failed 2" "[honest 4, honest 6]"]
    by simp
qed

text \<open>
  C5 as it is stated fails: the cursor is set to the height that \<^verbatim>\<open>get_block\<close>
  returned.  With the cursor at 2 and a node that answers the request for height
  3 with the block of height 1, the tick moves the cursor back to 1.
\<close>

theorem cursor_decreases_on_lower_height:
  "last_processed_height resumed = 2
   \<and> last_processed_height (tick (lagging 3) resumed) = 1
   \<and> last_processed_height (tick (lagging 3) resumed) < last_processed_height resumed"
  by code_simp

section \<open>The first start\<close>

text \<open>
  C4.  On an empty storage directory \<^verbatim>\<open>__init__\<close> creates the ledger with its
  header and leaves the cursor at the value the constructor gave it, which is 1
  and not 0.  With the head at height 3 and a node that returns every requested
  block, the first iteration of the run therefore writes the records of heights
  2 and 3: the ledger has no record of height 1.
\<close>

theorem bootstrap_skips_height_one:
  "init fine no_files =
     Started \<lparr>state_file = Some (''processing'' @ [LF]), blocks_file = Some header,
              last_processed_height = 1, running = True, logged = [Created_blocks_file]\<rparr>
   \<and> blocks_file (sessions [(fine, [honest 3])] no_files)
       = Some (''height,hash'' @ [LF] @ ''2,AB'' @ [LF] @ ''3,AB'' @ [LF])
   \<and> record_heights (''height,hash'' @ [LF] @ ''2,AB'' @ [LF] @ ''3,AB'' @ [LF]) = [Some 2, Some 3]"
  by code_simp

text \<open>
  The same for any head \<open>H\<close> above 1: the first tick after a start on an empty
  directory writes the records of the heights \<open>2 .. H\<close>.
\<close>

lemma first_tick_starts_at_two:
  assumes "init benv no_files = Started s" and "\<not> signal_top env"
    and "head env = Block H x" and "1 < H"
    and "\<forall>h\<in>{2..H}. node env h = Block h (Some (hs h)) \<and> write_ok env h = Written \<and> \<not> signal env h"
  shows "blocks_file (tick env s) = Some (header @ records_text hs [2..H])
       \<and> last_processed_height (tick env s) = H"
proof -
  from assms(1) have s: "running s" "blocks_file s = Some header" "last_processed_height s = 1"
    by (auto simp add: init_def Let_def check_and_acquire_lock_def init_blocks_file_def
          write_file_def no_files_def split: if_splits write_result.splits)
  have "tick env s =
          s\<lparr>blocks_file := Some (header @ records_text hs [1 + 1..H]),
            last_processed_height := H,
            logged := logged s @ Request None # fetch_log hs [1 + 1..H]\<rparr>"
    using s assms by (intro tick_catches_up [of s env header 1 H x hs]) simp_all
  then show ?thesis by simp
qed

text \<open>
  Whatever fails while the last line of an existing ledger is read, the
  constructor's cursor stays, the error is logged and the start-up goes on.
\<close>

lemma read_error_recovered:
  assumes "blocks_file s = Some content" and "read_last_height env content = Inl e"
  shows "init_blocks_file env s = Inr (s\<lparr>logged := logged s @ [Read_error]\<rparr>)"
  using assms by (simp add: init_blocks_file_def)

text \<open>
  C6.  A ledger whose last line is not a record makes \<^verbatim>\<open>int\<close> raise inside
  \<^verbatim>\<open>_init_blocks_file\<close>.  The error is caught and logged and the process starts,
  with the cursor at the constructor's value 1, not at 0.
\<close>

theorem read_error_leaves_cursor_at_one:
  "read_last_height fine (header @ ''12,AB'' @ [LF] @ ''garbage'' @ [LF]) = Inl ValueError
   \<and> init fine corrupt_ledger =
       Started (corrupt_ledger\<lparr>state_file := Some (''processing'' @ [LF]),
                               last_processed_height := 1, running := True,
                               logged := [Read_error]\<rparr>)"
  by code_simp

end
